theory Spec2Isabelle
  imports Main "HOL-Library.Word"
begin

section \<open>Data model of the consumer (internal/consumer/consumer.go)\<close>

text \<open>
  An upstream message (\<^verbatim>\<open>jetstream.Msg\<close>) is identified by a number: the code compares
  messages by identity only (\<^verbatim>\<open>m == msg\<close>). Wall-clock instants are nanoseconds since the
  epoch, durations are nanoseconds.
\<close>

type_synonym msg = nat
type_synonym time = int
type_synonym duration = int

text \<open>
  Modelled from the spec: the sentinel \<^verbatim>\<open>internal.ErrDriverStopped\<close> ("driver stopped") is
  declared outside the files at hand; \<^verbatim>\<open>jetstream.ErrConsumerNotFound\<close> belongs to the
  client library. Errors form a chain (\<^verbatim>\<open>fmt.Errorf("...: %w", err)\<close>) that
  \<^verbatim>\<open>errors.Is\<close> walks.
\<close>

datatype error =
    ErrDriverStopped
  | ErrConsumerNotFound
  | ErrOther string
  | ErrWrap string error

fun errors_Is :: "error \<Rightarrow> error \<Rightarrow> bool" where
  "errors_Is (ErrWrap s e) t = (ErrWrap s e = t \<or> errors_Is e t)"
| "errors_Is ErrDriverStopped t = (ErrDriverStopped = t)"
| "errors_Is ErrConsumerNotFound t = (ErrConsumerNotFound = t)"
| "errors_Is (ErrOther s) t = (ErrOther s = t)"

text \<open>The fields of \<^verbatim>\<open>internal.DBChangeEvent\<close> that the consumer reads or writes.\<close>

record event =
  ID :: string
  Table :: string
  Timestamp :: int
  SchemaValidatedPath :: "string option"
  NatsMsg :: "msg option"

text \<open>An interface or pointer value that may be nil is an option of an opaque handle.\<close>

datatype handle = Handle nat

text \<open>
  \<^verbatim>\<open>jetstream.ConsumerConfig\<close>, the fields that \<^verbatim>\<open>CreateConsumer\<close> sets. The policies are
  the enumerations of the client library, in its order (the zero value comes first).
\<close>

datatype deliver_policy =
    DeliverAllPolicy
  | DeliverLastPolicy
  | DeliverNewPolicy
  | DeliverByStartSequencePolicy
  | DeliverByStartTimePolicy
  | DeliverLastPerSubjectPolicy

datatype ack_policy = AckExplicitPolicy | AckAllPolicy | AckNonePolicy

record js_config =
  Durable :: string
  js_MaxAckPending :: int
  MaxDeliver :: int
  AckWait :: duration
  MaxRequestBatch :: int
  FilterSubjects :: "string list"
  AckPolicy :: ack_policy
  InactiveThreshold :: duration
  DeliverPolicy :: deliver_policy
  OptStartTime :: "time option"

text \<open>\<^verbatim>\<open>ConsumerConfig\<close> (without context and logger) and \<^verbatim>\<open>CredentialInfo\<close>.\<close>

record consumer_config =
  URL :: string
  Credentials :: string
  Suffix :: string
  MaxAckPending :: int
  MaxPendingBuffer :: int
  Driver :: "handle option"
  ExportTableTimestamps :: "(string \<times> time option) list option"
  DeliverAll :: bool
  SchemaValidator :: "handle option"

record credential_info =
  companyIDs :: "string list"
  companyID :: string
  sessionID :: string

text \<open>
  The fields of \<^verbatim>\<open>Consumer\<close> that the dispatcher, flush, Pause and Unpause touch.
  \<^verbatim>\<open>max\<close> is a Go \<^verbatim>\<open>int\<close>; \<^verbatim>\<open>tableTimestamps\<close> is a
  \<^verbatim>\<open>map[string]*time.Time\<close> that may itself be nil and whose entries may be nil.
\<close>

record consumer =
  max_c :: int
  driver :: "handle option"
  conn :: "handle option"
  jsconn :: "handle option"
  subscriber :: "handle option"
  pending :: "msg list"
  pendingStarted :: "time option"
  pauseStarted :: "time option"
  stopping :: bool
  tableTimestamps :: "(string \<times> time option) list option"
  validator :: "handle option"

text \<open>
  What the consumer does to the outside world, in the order it does it: calls on a
  message, on the driver, on the subscription and the connection, and sends on the
  error channel \<^verbatim>\<open>subError\<close>. \<open>Ack\<close> carries what the call returned. Logging and
  the metrics gauges are left out.
\<close>

datatype action =
    Ack msg "error option"
  | Nak msg
  | Emit error
  | Process event
  | Flush
  | Drain handle
  | Consume
  | ConnClose
  | JSCreate js_config
  | JSUpdate js_config

subsection \<open>nackEverything, handleError, flush\<close>

definition nackEverything :: "consumer \<Rightarrow> action list \<times> consumer" where
  "nackEverything c = (map Nak (pending c), c\<lparr>pending := [], pendingStarted := None\<rparr>)"

definition handleError :: "error \<Rightarrow> consumer \<Rightarrow> action list \<times> consumer" where
  "handleError err c =
     (case nackEverything c of (a, c') \<Rightarrow> (a @ [Emit err], c'))"

text \<open>
  The loop \<^verbatim>\<open>for _, m := range c.pending { if err := m.Ack(); err != nil {...; return true} }\<close>:
  the calls made and the first error met. The first argument is what \<^verbatim>\<open>Ack\<close> returns
  for each message.
\<close>

fun ack_loop :: "(msg \<Rightarrow> error option) \<Rightarrow> msg list \<Rightarrow> action list \<times> error option" where
  "ack_loop ack [] = ([], None)"
| "ack_loop ack (m # ms) =
     (case ack m of
        Some e \<Rightarrow> ([Ack m (Some e)], Some e)
      | None \<Rightarrow> (case ack_loop ack ms of (a, r) \<Rightarrow> (Ack m None # a, r)))"

text \<open>
  What the environment answers during one call of \<^verbatim>\<open>flush\<close>: the result of
  \<^verbatim>\<open>driver.Flush\<close> and of each \<^verbatim>\<open>Ack\<close>.
\<close>

record flush_env =
  flush_result :: "error option"
  ack_result :: "msg \<Rightarrow> error option"

text \<open>\<^verbatim>\<open>flush\<close> returns the calls made, its boolean result and the consumer afterwards.\<close>

definition flush :: "flush_env \<Rightarrow> consumer \<Rightarrow> action list \<times> bool \<times> consumer" where
  "flush env c =
     (case driver c of
        None \<Rightarrow> ([], stopping c, c)
      | Some d \<Rightarrow>
          (case flush_result env of
             Some err \<Rightarrow>
               (if errors_Is err ErrDriverStopped
                then (case nackEverything c of (a, c') \<Rightarrow> (Flush # a, True, c'))
                else (case handleError err c of (a, c') \<Rightarrow> (Flush # a, True, c')))
           | None \<Rightarrow>
               (case ack_loop (ack_result env) (pending c) of
                  (a, Some e) \<Rightarrow>
                    (case nackEverything c of (a', c') \<Rightarrow> (Flush # a @ a', True, c'))
                | (a, None) \<Rightarrow>
                    (Flush # a, stopping c, c\<lparr>pending := [], pendingStarted := None\<rparr>))))"

subsection \<open>shouldSkip\<close>

text \<open>
  \<^verbatim>\<open>time.UnixMilli\<close> turns the event's milliseconds into an instant;
  \<^verbatim>\<open>Before\<close> is the strict order on instants.
\<close>

definition UnixMilli :: "int \<Rightarrow> time" where
  "UnixMilli ms = ms * 1000000"

text \<open>
  The lookup \<^verbatim>\<open>c.tableTimestamps[evt.Table]\<close>: a missing key and a nil entry both
  give nil.
\<close>

definition tableTimestamp :: "(string \<times> time option) list \<Rightarrow> string \<Rightarrow> time option" where
  "tableTimestamp tt t = (case map_of tt t of None \<Rightarrow> None | Some ts \<Rightarrow> ts)"

text \<open>
  Modelled from the spec: the interface \<^verbatim>\<open>internal.SchemaValidator\<close> is declared
  outside the files at hand; \<^verbatim>\<open>Validate\<close> yields a found flag, a validity verdict, the
  matched rule path and an error, as \<^verbatim>\<open>shouldSkip\<close> destructures them.
\<close>

record validate_result =
  v_found :: bool
  v_valid :: bool
  v_path :: string
  v_err :: "error option"

text \<open>
  The first part of \<^verbatim>\<open>shouldSkip\<close>: the event is older than the watermark of its
  table.
\<close>

definition before_watermark :: "consumer \<Rightarrow> event \<Rightarrow> bool" where
  "before_watermark c evt =
     (case tableTimestamps c of
        None \<Rightarrow> False
      | Some tt \<Rightarrow>
          (case tableTimestamp tt (Table evt) of
             None \<Rightarrow> False
           | Some w \<Rightarrow> UnixMilli (Timestamp evt) < w))"

text \<open>
  \<^verbatim>\<open>shouldSkip\<close> returns its verdict and the event, on which it may have recorded the
  matched path. The validator is asked only when the watermark did not decide.
\<close>

definition shouldSkip :: "consumer \<Rightarrow> validate_result \<Rightarrow> event \<Rightarrow> bool \<times> event" where
  "shouldSkip c vr evt =
     (if before_watermark c evt then (True, evt)
      else
        (case validator c of
           None \<Rightarrow> (False, evt)
         | Some v \<Rightarrow>
             (if v_err vr \<noteq> None then (True, evt)
              else if \<not> v_found vr then (True, evt)
              else if \<not> v_valid vr then (True, evt)
              else if v_path vr \<noteq> [] then (False, evt\<lparr>SchemaValidatedPath := Some (v_path vr)\<rparr>)
              else (False, evt))))"

subsection \<open>The dispatcher loop (bufferer)\<close>

definition minPendingLatency :: duration where
  "minPendingLatency = 2 * 1000000000"

definition maxPendingLatency :: duration where
  "maxPendingLatency = 30 * 1000000000"

text \<open>
  \<^verbatim>\<open>time.Since(t)\<close> at the instant \<open>now\<close>: the difference, saturated to the range of
  a \<^verbatim>\<open>Duration\<close> (a signed 64-bit count of nanoseconds).
\<close>

definition time_Since :: "time \<Rightarrow> time \<Rightarrow> duration" where
  "time_Since now t =
     (let d = now - t in
      if d < - (2 ^ 63) then - (2 ^ 63) else if d > 2 ^ 63 - 1 then 2 ^ 63 - 1 else d)"

text \<open>The part of \<^verbatim>\<open>jetstream.MsgMetadata\<close> that decides anything.\<close>

record msg_metadata =
  NumPending :: "64 word"

text \<open>
  How the loop can end an iteration: go round again, leave the loop, or crash on a nil
  dereference (of the driver, of \<^verbatim>\<open>pendingStarted\<close>, of the subscription).
\<close>

datatype panic = NilDriver | NilPendingStarted | NilSubscriber

datatype outcome = Continue consumer | Return consumer | Panic panic

text \<open>
  What the environment answers while one message is handled. Modelled from the spec:
  the interface \<^verbatim>\<open>internal.Driver\<close> is declared outside the files at hand;
  \<^verbatim>\<open>Process\<close> returns a flush hint and an error, \<^verbatim>\<open>MaxBatchSize\<close> an int.
\<close>

record msg_env =
  metadata_result :: "error + msg_metadata"
  unmarshal_result :: "error + event"
  validate_answer :: validate_result
  skip_ack_result :: "error option"
  process_result :: "bool \<times> error option"
  MaxBatchSize :: int
  now_started :: time
  now_catchup :: time
  now_latency :: time
  flush_answers :: flush_env

text \<open>\<^verbatim>\<open>if c.flush(log) { return }; continue\<close>, after the calls \<open>pre\<close>.\<close>

definition flush_then :: "action list \<Rightarrow> flush_env \<Rightarrow> consumer \<Rightarrow> action list \<times> outcome" where
  "flush_then pre fenv c =
     (case flush fenv c of
        (a, stop, c') \<Rightarrow> (pre @ a, if stop then Return c' else Continue c'))"

text \<open>
  The second flush test of the message branch:
  \<^verbatim>\<open>len(c.pending) >= c.max || time.Since(*c.pendingStarted) >= maxPendingLatency\<close>.
  The dereference happens only when the first test fails.
\<close>

definition latency_check :: "action list \<Rightarrow> msg_env \<Rightarrow> consumer \<Rightarrow> action list \<times> outcome" where
  "latency_check pre env c =
     (if int (length (pending c)) \<ge> max_c c then flush_then pre (flush_answers env) c
      else
        (case pendingStarted c of
           None \<Rightarrow> (pre, Panic NilPendingStarted)
         | Some ps \<Rightarrow>
             (if time_Since (now_latency env) ps \<ge> maxPendingLatency
              then flush_then pre (flush_answers env) c
              else (pre, Continue c))))"

text \<open>
  The catch-up test
  \<^verbatim>\<open>md.NumPending > uint64(c.max) && time.Since(*c.pendingStarted) < maxPendingLatency*2\<close>,
  then the second flush test.
\<close>

definition catchup_check ::
  "action list \<Rightarrow> msg_metadata \<Rightarrow> msg_env \<Rightarrow> consumer \<Rightarrow> action list \<times> outcome" where
  "catchup_check pre md env c =
     (if NumPending md > word_of_int (max_c c)
      then
        (case pendingStarted c of
           None \<Rightarrow> (pre, Panic NilPendingStarted)
         | Some ps \<Rightarrow>
             (if time_Since (now_catchup env) ps < maxPendingLatency * 2
              then (pre, Continue c)
              else latency_check pre env c))
      else latency_check pre env c)"

text \<open>\<^verbatim>\<open>if c.pendingStarted == nil { ts := time.Now(); c.pendingStarted = &ts }\<close>\<close>

definition start_pending :: "time \<Rightarrow> consumer \<Rightarrow> consumer" where
  "start_pending now c =
     (case pendingStarted c of None \<Rightarrow> c\<lparr>pendingStarted := Some now\<rparr> | Some ps \<Rightarrow> c)"

text \<open>
  What follows a \<^verbatim>\<open>Process\<close> that returned no error: the effective batch cap, the
  first flush test, then the latency tests.
\<close>

definition maxsize :: "msg_env \<Rightarrow> consumer \<Rightarrow> int" where
  "maxsize env c = (if MaxBatchSize env \<le> 0 then max_c c else MaxBatchSize env)"

definition after_process ::
  "action list \<Rightarrow> bool \<Rightarrow> msg_metadata \<Rightarrow> msg_env \<Rightarrow> consumer \<Rightarrow> action list \<times> outcome" where
  "after_process pre fl md env c =
     (if fl \<or> int (length (pending c)) \<ge> maxsize env c
      then flush_then pre (flush_answers env) c
      else catchup_check pre md env (start_pending (now_started env) c))"

text \<open>
  The branch \<^verbatim>\<open>case msg := <-c.buffer\<close> of the loop. The removal of a skipped message,
  \<^verbatim>\<open>for i, m := range c.pending { if m == msg { ...; break } }\<close>, drops the first
  occurrence, which is \<^const>\<open>remove1\<close>.
\<close>

definition on_msg :: "msg \<Rightarrow> msg_env \<Rightarrow> consumer \<Rightarrow> action list \<times> outcome" where
  "on_msg m env c =
     (case metadata_result env of
        Inl err \<Rightarrow> (case handleError err c of (a, c') \<Rightarrow> (a, Return c'))
      | Inr md \<Rightarrow>
          (let c1 = c\<lparr>pending := pending c @ [m]\<rparr> in
           case unmarshal_result env of
             Inl err \<Rightarrow> (case handleError err c1 of (a, c') \<Rightarrow> (a, Return c'))
           | Inr evt0 \<Rightarrow>
               (case shouldSkip c1 (validate_answer env) evt0 of
                  (True, evt) \<Rightarrow>
                    ([Ack m (skip_ack_result env)],
                     Continue (c1\<lparr>pending := remove1 m (pending c1)\<rparr>))
                | (False, evt) \<Rightarrow>
                    (case driver c1 of
                       None \<Rightarrow> ([], Panic NilDriver)
                     | Some d \<Rightarrow>
                         (let evt' = evt\<lparr>NatsMsg := Some m\<rparr> in
                          case process_result env of
                            (fl, Some err) \<Rightarrow>
                              (case handleError err c1 of (a, c') \<Rightarrow> (Process evt' # a, Return c'))
                          | (fl, None) \<Rightarrow> after_process [Process evt'] fl md env c1)))))"

text \<open>What the environment answers in the \<^verbatim>\<open>default\<close> branch.\<close>

record idle_env =
  idle_now :: time
  idle_flush :: flush_env
  ctx_done :: bool

text \<open>
  The end of the \<^verbatim>\<open>default\<close> branch: with a batch pending go round again, otherwise
  look at the context and sleep.
\<close>

definition idle_rest :: "idle_env \<Rightarrow> consumer \<Rightarrow> action list \<times> outcome" where
  "idle_rest env c =
     (if length (pending c) > 0 then ([], Continue c)
      else if ctx_done env then (case nackEverything c of (a, c') \<Rightarrow> (a, Return c'))
      else ([], Continue c))"

text \<open>
  The \<^verbatim>\<open>default\<close> branch. In
  \<^verbatim>\<open>count > 0 && count < c.max && time.Since(*c.pendingStarted) >= minPendingLatency\<close>
  the dereference happens only when the first two tests hold.
\<close>

definition on_default :: "idle_env \<Rightarrow> consumer \<Rightarrow> action list \<times> outcome" where
  "on_default env c =
     (if length (pending c) > 0 \<and> int (length (pending c)) < max_c c
      then
        (case pendingStarted c of
           None \<Rightarrow> ([], Panic NilPendingStarted)
         | Some ps \<Rightarrow>
             (if time_Since (idle_now env) ps \<ge> minPendingLatency
              then flush_then [] (idle_flush env) c
              else idle_rest env c))
      else idle_rest env c)"

text \<open>What the \<^verbatim>\<open>select\<close> of one iteration picks.\<close>

datatype select_case = CtxDone | Recv msg msg_env | Default idle_env

fun iteration :: "select_case \<Rightarrow> consumer \<Rightarrow> action list \<times> outcome" where
  "iteration CtxDone c = (case nackEverything c of (a, c') \<Rightarrow> (a, Return c'))"
| "iteration (Recv m env) c = on_msg m env c"
| "iteration (Default env) c = on_default env c"

text \<open>
  The loop over a finite run of selections: all the calls made, and how the run ends
  (\<open>Continue\<close> when the loop is still going after the last selection).
\<close>

fun bufferer :: "select_case list \<Rightarrow> consumer \<Rightarrow> action list \<times> outcome" where
  "bufferer [] c = ([], Continue c)"
| "bufferer (s # ss) c =
     (case iteration s c of
        (a, Continue c') \<Rightarrow> (case bufferer ss c' of (a', r) \<Rightarrow> (a @ a', r))
      | (a, Return c') \<Rightarrow> (a, Return c')
      | (a, Panic p) \<Rightarrow> (a, Panic p))"

subsection \<open>Stop, running beside the loop\<close>

text \<open>
  \<^verbatim>\<open>Stop\<close> runs on the goroutine of its caller while the loop runs on its own. Its
  first steps are
  \<^verbatim>\<open>c.lock.Lock(); c.stopping = true; c.lock.Unlock(); c.flush(c.logger)\<close>;
  only then does it cancel the context and wait for the loop.
\<close>

definition Stop_flush :: "flush_env \<Rightarrow> consumer \<Rightarrow> action list \<times> bool \<times> consumer" where
  "Stop_flush fenv c = flush fenv (c\<lparr>stopping := True\<rparr>)"

text \<open>
  The \<^verbatim>\<open>default\<close> branch from the point where \<^verbatim>\<open>count := len(c.pending)\<close> has been
  read into its local variable: the tests on \<^verbatim>\<open>count\<close> use that value, the dereference
  and the flush use the consumer as it is by then.
\<close>

definition default_with_count :: "nat \<Rightarrow> idle_env \<Rightarrow> consumer \<Rightarrow> action list \<times> outcome" where
  "default_with_count count env c =
     (if count > 0 \<and> int count < max_c c
      then
        (case pendingStarted c of
           None \<Rightarrow> ([], Panic NilPendingStarted)
         | Some ps \<Rightarrow>
             (if time_Since (idle_now env) ps \<ge> minPendingLatency
              then flush_then [] (idle_flush env) c
              else if count > 0 then ([], Continue c)
              else if ctx_done env then (case nackEverything c of (a, c') \<Rightarrow> (a, Return c'))
              else ([], Continue c)))
      else if count > 0 then ([], Continue c)
      else if ctx_done env then (case nackEverything c of (a, c') \<Rightarrow> (a, Return c'))
      else ([], Continue c))"

text \<open>
  One schedule of the two goroutines: the loop enters the \<^verbatim>\<open>default\<close> branch and reads
  \<^verbatim>\<open>count\<close>; \<^verbatim>\<open>Stop\<close> sets \<^verbatim>\<open>stopping\<close> and runs its flush to the end (the loop does not
  hold \<^verbatim>\<open>c.lock\<close> outside its own calls of flush); the loop goes on with its tests.
  The calls are those of the flush, then those of the loop.
\<close>

definition on_default_during_Stop ::
  "idle_env \<Rightarrow> flush_env \<Rightarrow> consumer \<Rightarrow> action list \<times> outcome" where
  "on_default_during_Stop env sfenv c =
     (let count = length (pending c) in
      case Stop_flush sfenv c of
        (a, stop, c') \<Rightarrow> (case default_with_count count env c' of (a', r) \<Rightarrow> (a @ a', r)))"

subsection \<open>Pause and Unpause\<close>

text \<open>
  \<^verbatim>\<open>Pause\<close> calls \<^verbatim>\<open>Drain\<close> on the subscription, which crashes when there is none.
\<close>

definition Pause :: "time \<Rightarrow> consumer \<Rightarrow> panic + action list \<times> consumer" where
  "Pause now c =
     (case subscriber c of
        None \<Rightarrow> Inl NilSubscriber
      | Some s \<Rightarrow> Inr ([Drain s], c\<lparr>subscriber := None, pauseStarted := Some now\<rparr>))"

text \<open>
  \<^verbatim>\<open>Unpause\<close>, given what \<^verbatim>\<open>c.jsconn.Consume\<close> answers: the calls made, the error
  returned and the consumer afterwards.
\<close>

definition Unpause :: "error + handle \<Rightarrow> consumer \<Rightarrow> action list \<times> error option \<times> consumer" where
  "Unpause consume_result c =
     (if subscriber c \<noteq> None then ([], Some (ErrOther ''consumer already started''), c)
      else
        (case consume_result of
           Inl err \<Rightarrow>
             ([Consume, ConnClose], Some (ErrWrap ''error starting jetstream consumer'' err), c)
         | Inr sub \<Rightarrow> ([Consume], None, c\<lparr>subscriber := Some sub, pauseStarted := None\<rparr>)))"

subsection \<open>CreateConsumer\<close>

text \<open>
  The loop \<^verbatim>\<open>for _, ts := range config.ExportTableTimestamps\<close> that keeps the earliest
  timestamp in \<^verbatim>\<open>startAt\<close>; the list gives the entries in the order the iteration
  happens to visit them.
\<close>

fun earliest :: "(string \<times> time option) list \<Rightarrow> time option \<Rightarrow> time option" where
  "earliest [] startAt = startAt"
| "earliest ((k, ts) # rest) startAt =
     earliest rest
       (case ts of
          None \<Rightarrow> startAt
        | Some t \<Rightarrow>
            (case startAt of
               None \<Rightarrow> Some t
             | Some s \<Rightarrow> if t < s then Some t else Some s))"

definition startAt_of :: "consumer_config \<Rightarrow> time option" where
  "startAt_of config =
     (case ExportTableTimestamps config of None \<Rightarrow> None | Some tt \<Rightarrow> earliest tt None)"

text \<open>The configuration literal \<^verbatim>\<open>jsConfig\<close>; the two delivery fields start at zero.\<close>

definition jsConfig :: "consumer_config \<Rightarrow> credential_info \<Rightarrow> js_config" where
  "jsConfig config info =
     \<lparr>Durable = ''eds-server-'' @ companyID info
                 @ (if Suffix config \<noteq> [] then ''-'' @ Suffix config else []),
      js_MaxAckPending = MaxAckPending config,
      MaxDeliver = 20,
      AckWait = 5 * 60 * 1000000000,
      MaxRequestBatch = MaxPendingBuffer config,
      FilterSubjects = map (\<lambda>cid. ''dbchange.*.*.'' @ cid @ ''.*.PUBLIC.>'') (companyIDs info),
      AckPolicy = AckExplicitPolicy,
      InactiveThreshold = 3 * 24 * 3600 * 1000000000,
      DeliverPolicy = DeliverAllPolicy,
      OptStartTime = None\<rparr>"

text \<open>
  What the environment answers during \<^verbatim>\<open>CreateConsumer\<close>: the connection and the
  credentials, \<^verbatim>\<open>jetstream.New\<close>, the lookup \<^verbatim>\<open>js.Consumer\<close> (the stored configuration
  when the durable consumer exists), and \<^verbatim>\<open>js.CreateConsumer\<close> or
  \<^verbatim>\<open>js.UpdateConsumer\<close>.
\<close>

record create_env =
  connection_result :: "error + handle \<times> credential_info"
  jetstream_result :: "error option"
  lookup_result :: "error + js_config"
  create_result :: "error + handle"
  update_result :: "error + handle"

text \<open>The consumer as \<^verbatim>\<open>CreateConsumer\<close> fills it before it talks to the server.\<close>

definition new_consumer :: "consumer_config \<Rightarrow> handle \<Rightarrow> consumer" where
  "new_consumer config nc =
     \<lparr>max_c = MaxAckPending config, driver = Driver config, conn = Some nc, jsconn = None,
      subscriber = None, pending = [], pendingStarted = None, pauseStarted = None,
      stopping = False, tableTimestamps = ExportTableTimestamps config,
      validator = SchemaValidator config\<rparr>"

definition CreateConsumer :: "create_env \<Rightarrow> consumer_config \<Rightarrow> action list \<times> (error + consumer)" where
  "CreateConsumer env config =
     (case connection_result env of
        Inl err \<Rightarrow> ([], Inl err)
      | Inr (nc, info) \<Rightarrow>
          (case jetstream_result env of
             Some err \<Rightarrow> ([ConnClose], Inl (ErrWrap ''error creating jetstream connection'' err))
           | None \<Rightarrow>
               (case lookup_result env of
                  Inl err \<Rightarrow>
                    (if \<not> errors_Is err ErrConsumerNotFound
                     then ([ConnClose], Inl (ErrWrap ''error getting jetstream consumer'' err))
                     else
                       (let cfg =
                          (if DeliverAll config
                           then (jsConfig config info)\<lparr>DeliverPolicy := DeliverAllPolicy\<rparr>
                           else
                             (case startAt_of config of
                                Some t \<Rightarrow>
                                  (jsConfig config info)
                                    \<lparr>DeliverPolicy := DeliverByStartTimePolicy, OptStartTime := Some t\<rparr>
                              | None \<Rightarrow> (jsConfig config info)\<lparr>DeliverPolicy := DeliverNewPolicy\<rparr>))
                        in
                        case create_result env of
                          Inl err' \<Rightarrow>
                            ([JSCreate cfg, ConnClose],
                             Inl (ErrWrap ''error creating jetstream consumer'' err'))
                        | Inr h \<Rightarrow>
                            ([JSCreate cfg], Inr ((new_consumer config nc)\<lparr>jsconn := Some h\<rparr>))))
                | Inr stored \<Rightarrow>
                    (let cfg =
                       (jsConfig config info)
                         \<lparr>DeliverPolicy := DeliverPolicy stored, OptStartTime := OptStartTime stored\<rparr>
                     in
                     case update_result env of
                       Inl err' \<Rightarrow>
                         ([JSUpdate cfg, ConnClose],
                          Inl (ErrWrap ''error updating jetstream consumer'' err'))
                     | Inr h \<Rightarrow>
                         ([JSUpdate cfg], Inr ((new_consumer config nc)\<lparr>jsconn := Some h\<rparr>))))))"

text \<open>
  The watermarks present in a timestamp map, for stating what \<^const>\<open>earliest\<close> finds.
\<close>

definition watermarks :: "(string \<times> time option) list \<Rightarrow> time set" where
  "watermarks tt = {t. \<exists>k. (k, Some t) \<in> set tt}"

subsection \<open>Concrete consumers and answers\<close>

definition running_consumer :: consumer where
  "running_consumer =
     \<lparr>max_c = 3, driver = Some (Handle 0), conn = Some (Handle 1), jsconn = Some (Handle 2),
      subscriber = Some (Handle 3), pending = [1, 2], pendingStarted = Some 5,
      pauseStarted = None, stopping = False,
      tableTimestamps = Some [(''orders'', Some (UnixMilli 1700000000000))],
      validator = None\<rparr>"

definition all_acked :: flush_env where
  "all_acked = \<lparr>flush_result = None, ack_result = (\<lambda>m. None)\<rparr>"

definition second_ack_fails :: flush_env where
  "second_ack_fails =
     \<lparr>flush_result = None,
      ack_result = (\<lambda>m. if m = 2 then Some (ErrOther ''ack failed'') else None)\<rparr>"

definition driver_stopped :: flush_env where
  "driver_stopped =
     \<lparr>flush_result = Some (ErrWrap ''flush'' ErrDriverStopped), ack_result = (\<lambda>m. None)\<rparr>"

definition fresh_consumer :: consumer where
  "fresh_consumer = running_consumer\<lparr>pending := [], pendingStarted := None\<rparr>"

definition user_event :: event where
  "user_event =
     \<lparr>ID = ''e1'', Table = ''users'', Timestamp = 1700000000001,
      SchemaValidatedPath = None, NatsMsg = None\<rparr>"

definition old_order_event :: event where
  "old_order_event =
     \<lparr>ID = ''e2'', Table = ''orders'', Timestamp = 1699999999999,
      SchemaValidatedPath = None, NatsMsg = None\<rparr>"

text \<open>
  A message that decodes to the given event, is accepted by the driver with the given
  flush hint, under a driver batch size of 2.
\<close>

definition delivery :: "event \<Rightarrow> bool \<Rightarrow> flush_env \<Rightarrow> msg_env" where
  "delivery evt hint fenv =
     \<lparr>metadata_result = Inr \<lparr>NumPending = 0\<rparr>,
      unmarshal_result = Inr evt,
      validate_answer = \<lparr>v_found = True, v_valid = True, v_path = [], v_err = None\<rparr>,
      skip_ack_result = None,
      process_result = (hint, None),
      MaxBatchSize = 2,
      now_started = 10, now_catchup = 11, now_latency = 12,
      flush_answers = fenv\<rparr>"

text \<open>The same delivery with a validator that fails.\<close>

definition validator_fails :: msg_env where
  "validator_fails =
     (delivery user_event False all_acked)
       \<lparr>validate_answer :=
          \<lparr>v_found = False, v_valid = False, v_path = [], v_err = Some (ErrOther ''bad schema'')\<rparr>\<rparr>"

text \<open>An idle moment of the loop, three nanoseconds after the batch was started.\<close>

definition idle_tick :: idle_env where
  "idle_tick = \<lparr>idle_now = 13, idle_flush = all_acked, ctx_done = False\<rparr>"

definition example_config :: consumer_config where
  "example_config =
     \<lparr>URL = ''nats://example'', Credentials = ''creds'', Suffix = ''a'', MaxAckPending = 3,
      MaxPendingBuffer = 4096, Driver = Some (Handle 0),
      ExportTableTimestamps = Some [(''orders'', Some 5), (''users'', None), (''parts'', Some 3)],
      DeliverAll = False, SchemaValidator = None\<rparr>"

definition example_info :: credential_info where
  "example_info = \<lparr>companyIDs = [''c1''], companyID = ''acme'', sessionID = ''s''\<rparr>"

definition no_consumer_yet :: create_env where
  "no_consumer_yet =
     \<lparr>connection_result = Inr (Handle 1, example_info), jetstream_result = None,
      lookup_result = Inl ErrConsumerNotFound, create_result = Inr (Handle 2),
      update_result = Inr (Handle 2)\<rparr>"

subsection \<open>Notions used to state the properties\<close>

text \<open>The watermarks of a configuration, in the words of the specification.\<close>

definition config_watermarks :: "consumer_config \<Rightarrow> time set" where
  "config_watermarks config =
     (case ExportTableTimestamps config of None \<Rightarrow> {} | Some tt \<Rightarrow> watermarks tt)"

text \<open>
  The invariant of the loop: a non-empty batch has its start recorded. An iteration ends
  safely when it does not crash on \<^verbatim>\<open>*c.pendingStarted\<close> and, if the loop goes on,
  the invariant holds again.
\<close>

definition started_if_pending :: "consumer \<Rightarrow> bool" where
  "started_if_pending c = (pending c \<noteq> [] \<longrightarrow> pendingStarted c \<noteq> None)"

definition safe_outcome :: "outcome \<Rightarrow> bool" where
  "safe_outcome r =
     (case r of
        Continue c \<Rightarrow> started_if_pending c
      | Return c \<Rightarrow> True
      | Panic p \<Rightarrow> p \<noteq> NilPendingStarted)"

section \<open>Properties of flush\<close>

lemma ack_loop_ok:
  "(\<forall>m\<in>set ms. ack m = None) \<Longrightarrow> ack_loop ack ms = (map (\<lambda>m. Ack m None) ms, None)"
  by (induction ms) auto

lemma flush_head:
  "driver c = Some d \<Longrightarrow> \<exists>rest. fst (flush fenv c) = Flush # rest"
  by (auto simp: flush_def split: option.splits prod.splits)

lemma flush_then_acts: "fst (flush_then pre fenv c) = pre @ fst (flush fenv c)"
  by (cases "flush fenv c") (simp add: flush_then_def)

text \<open>
  C1. When \<^verbatim>\<open>driver.Flush\<close> returns an error, flush acks nothing and naks every
  pending message, in order; it returns true and leaves the batch empty. If the error
  is (or wraps) the "driver stopped" sentinel nothing is sent on the error channel;
  any other error is sent on it, once, after the naks.
\<close>

theorem flush_error_naks_all:
  assumes "driver c = Some d" and "flush_result env = Some err"
  shows "fst (flush env c) =
           Flush # map Nak (pending c) @ (if errors_Is err ErrDriverStopped then [] else [Emit err])
         \<and> (\<forall>m r. Ack m r \<notin> set (fst (flush env c)))
         \<and> (\<forall>m\<in>set (pending c). Nak m \<in> set (fst (flush env c)))
         \<and> (errors_Is err ErrDriverStopped \<longrightarrow> (\<forall>e. Emit e \<notin> set (fst (flush env c))))
         \<and> (\<not> errors_Is err ErrDriverStopped \<longrightarrow> Emit err \<in> set (fst (flush env c)))
         \<and> fst (snd (flush env c)) = True
         \<and> pending (snd (snd (flush env c))) = []"
  using assms
  by (auto simp: flush_def nackEverything_def handleError_def)

theorem flush_error_naks_all_witness:
  "fst (flush driver_stopped running_consumer) = [Flush, Nak 1, Nak 2]"
  using flush_error_naks_all [of running_consumer "Handle 0" driver_stopped
      "ErrWrap ''flush'' ErrDriverStopped"]
  by (simp add: running_consumer_def driver_stopped_def)

text \<open>
  C2. The claim: after a successful \<^verbatim>\<open>driver.Flush\<close> the pending messages are acked in
  order, and when an ack fails exactly the messages not yet acked are naked and the
  error is sent on the error channel. The code acks in order, but when the ack of
  message 2 fails in the batch 1, 2 it naks the whole batch (message 1, already acked,
  included) and sends nothing on the error channel: this is the whole of what it does.
\<close>

theorem flush_ack_failure_trace:
  "flush second_ack_fails running_consumer =
     ([Flush, Ack 1 None, Ack 2 (Some (ErrOther ''ack failed'')), Nak 1, Nak 2], True,
      running_consumer\<lparr>pending := [], pendingStarted := None\<rparr>)"
  by (simp add: flush_def nackEverything_def running_consumer_def second_ack_fails_def)

text \<open>
  C5. After a successful flush (\<^verbatim>\<open>driver.Flush\<close> returned nil and every ack
  succeeded) the pending batch is empty and \<^verbatim>\<open>pendingStarted\<close> is nil; every pending
  message was acked, in order, and none naked.
\<close>

theorem flush_success_resets:
  assumes "driver c = Some d" and "flush_result env = None"
    and "\<forall>m\<in>set (pending c). ack_result env m = None"
  shows "pending (snd (snd (flush env c))) = []
         \<and> pendingStarted (snd (snd (flush env c))) = None
         \<and> fst (flush env c) = Flush # map (\<lambda>m. Ack m None) (pending c)"
  using assms by (simp add: flush_def ack_loop_ok)

theorem flush_success_resets_witness:
  "pending (snd (snd (flush all_acked running_consumer))) = []
   \<and> pendingStarted (snd (snd (flush all_acked running_consumer))) = None
   \<and> fst (flush all_acked running_consumer) = [Flush, Ack 1 None, Ack 2 None]"
  using flush_success_resets [of running_consumer "Handle 0" all_acked]
  by (simp add: running_consumer_def all_acked_def)

section \<open>Properties of the message branch\<close>

lemma shouldSkip_watermark:
  "before_watermark c evt \<Longrightarrow> shouldSkip c vr evt = (True, evt)"
  by (simp add: shouldSkip_def)

lemma before_watermark_pending [simp]:
  "before_watermark (c\<lparr>pending := p\<rparr>) evt = before_watermark c evt"
  by (simp add: before_watermark_def)

lemma on_msg_skip:
  assumes "metadata_result env = Inr md" and "unmarshal_result env = Inr evt"
    and "fst (shouldSkip (c\<lparr>pending := pending c @ [m]\<rparr>) (validate_answer env) evt) = True"
  shows "on_msg m env c =
           ([Ack m (skip_ack_result env)], Continue (c\<lparr>pending := remove1 m (pending c @ [m])\<rparr>))"
proof (cases "shouldSkip (c\<lparr>pending := pending c @ [m]\<rparr>) (validate_answer env) evt")
  case (Pair b evt')
  with assms(3) have "b = True" by simp
  with Pair assms(1,2) show ?thesis by (simp add: on_msg_def)
qed

lemma remove1_appended: "m \<notin> set ms \<Longrightarrow> remove1 m (ms @ [m]) = ms"
  by (simp add: remove1_append)

text \<open>
  C4. When the table of a decoded event has a watermark \<open>W\<close> in the consumer's
  timestamp map and the event's timestamp is strictly before \<open>W\<close>, the message branch
  does one thing to the outside, the ack of the message; it takes the message out of
  the pending batch again (the batch is as before when the message was not in it),
  goes round the loop, and never calls \<^verbatim>\<open>driver.Process\<close>.
\<close>

theorem watermark_skip:
  assumes "tableTimestamps c = Some tt" and "tableTimestamp tt (Table evt) = Some W"
    and "UnixMilli (Timestamp evt) < W"
    and "metadata_result env = Inr md" and "unmarshal_result env = Inr evt"
  shows "on_msg m env c =
           ([Ack m (skip_ack_result env)], Continue (c\<lparr>pending := remove1 m (pending c @ [m])\<rparr>))
         \<and> (\<forall>e. Process e \<notin> set (fst (on_msg m env c)))
         \<and> (m \<notin> set (pending c) \<longrightarrow> snd (on_msg m env c) = Continue c)"
proof -
  have "before_watermark (c\<lparr>pending := pending c @ [m]\<rparr>) evt"
    using assms(1-3) by (simp add: before_watermark_def)
  then have "fst (shouldSkip (c\<lparr>pending := pending c @ [m]\<rparr>) (validate_answer env) evt) = True"
    by (simp add: shouldSkip_watermark)
  then have eq: "on_msg m env c =
           ([Ack m (skip_ack_result env)], Continue (c\<lparr>pending := remove1 m (pending c @ [m])\<rparr>))"
    using assms(4,5) by (rule on_msg_skip [rotated 2])
  then show ?thesis by (simp add: remove1_appended)
qed

theorem watermark_skip_witness:
  "on_msg 7 (delivery old_order_event False all_acked) running_consumer =
     ([Ack 7 None], Continue running_consumer)"
  using watermark_skip [of running_consumer "[(''orders'', Some (UnixMilli 1700000000000))]"
      old_order_event "UnixMilli 1700000000000" "delivery old_order_event False all_acked"
      "\<lparr>NumPending = 0\<rparr>" 7]
  by (simp add: running_consumer_def old_order_event_def delivery_def tableTimestamp_def
      UnixMilli_def)

text \<open>
  C10. When a validator is configured and \<^verbatim>\<open>Validate\<close> returns an error for a decoded
  event, the message is handled as a skip: it is acked and taken out of the pending
  batch again, \<^verbatim>\<open>driver.Process\<close> is not called, nothing is sent on the error channel,
  and the loop goes on.
\<close>

theorem validator_error_skip:
  assumes "validator c = Some v" and "v_err (validate_answer env) = Some e"
    and "metadata_result env = Inr md" and "unmarshal_result env = Inr evt"
  shows "on_msg m env c =
           ([Ack m (skip_ack_result env)], Continue (c\<lparr>pending := remove1 m (pending c @ [m])\<rparr>))
         \<and> (\<forall>e'. Process e' \<notin> set (fst (on_msg m env c)))
         \<and> (\<forall>e'. Emit e' \<notin> set (fst (on_msg m env c)))
         \<and> (m \<notin> set (pending c) \<longrightarrow> snd (on_msg m env c) = Continue c)"
proof -
  have "fst (shouldSkip (c\<lparr>pending := pending c @ [m]\<rparr>) (validate_answer env) evt) = True"
    using assms(1,2) by (simp add: shouldSkip_def)
  then have eq: "on_msg m env c =
           ([Ack m (skip_ack_result env)], Continue (c\<lparr>pending := remove1 m (pending c @ [m])\<rparr>))"
    using assms(3,4) by (rule on_msg_skip [rotated 2])
  then show ?thesis by (simp add: remove1_appended)
qed

theorem validator_error_skip_witness:
  "on_msg 7 validator_fails (running_consumer\<lparr>validator := Some (Handle 9)\<rparr>) =
     ([Ack 7 None], Continue (running_consumer\<lparr>validator := Some (Handle 9)\<rparr>))"
  using validator_error_skip [of "running_consumer\<lparr>validator := Some (Handle 9)\<rparr>" "Handle 9"
      validator_fails "ErrOther ''bad schema''" "\<lparr>NumPending = 0\<rparr>" user_event 7]
  by (simp add: running_consumer_def validator_fails_def delivery_def)

text \<open>
  C6. For a message that reaches \<^verbatim>\<open>driver.Process\<close> and is accepted by it: the
  effective batch cap is \<^verbatim>\<open>driver.MaxBatchSize()\<close> when that is positive and the
  consumer's \<^verbatim>\<open>max\<close> (set from \<^verbatim>\<open>MaxAckPending\<close>) otherwise; and when the flush hint is
  true or the batch, this message included, has reached the cap, the rest of the
  iteration is the flush: \<^verbatim>\<open>driver.Flush\<close> is the call right after this
  \<^verbatim>\<open>Process\<close>.
\<close>

theorem process_then_flush:
  assumes "metadata_result env = Inr md" and "unmarshal_result env = Inr evt0"
    and "shouldSkip (c\<lparr>pending := pending c @ [m]\<rparr>) (validate_answer env) evt0 = (False, evt)"
    and "driver c = Some d" and "process_result env = (fl, None)"
  shows "maxsize env c = (if MaxBatchSize env > 0 then MaxBatchSize env else max_c c)
         \<and> max_c (new_consumer config nc) = MaxAckPending config
         \<and> (fl \<or> int (length (pending c)) + 1 \<ge> maxsize env c \<longrightarrow>
              on_msg m env c =
                flush_then [Process (evt\<lparr>NatsMsg := Some m\<rparr>)] (flush_answers env)
                  (c\<lparr>pending := pending c @ [m]\<rparr>)
              \<and> (\<exists>rest. fst (on_msg m env c) = Process (evt\<lparr>NatsMsg := Some m\<rparr>) # Flush # rest))"
proof -
  let ?c1 = "c\<lparr>pending := pending c @ [m]\<rparr>"
  have step: "on_msg m env c = after_process [Process (evt\<lparr>NatsMsg := Some m\<rparr>)] fl md env ?c1"
    using assms by (simp add: on_msg_def)
  have cap: "maxsize env ?c1 = maxsize env c"
    by (simp add: maxsize_def)
  have d1: "driver ?c1 = Some d" using assms(4) by simp
  obtain rest where rest: "fst (flush (flush_answers env) ?c1) = Flush # rest"
    using flush_head [OF d1] by blast
  have fl_acts: "fst (flush_then [Process (evt\<lparr>NatsMsg := Some m\<rparr>)] (flush_answers env) ?c1)
        = Process (evt\<lparr>NatsMsg := Some m\<rparr>) # Flush # rest"
    using rest by (simp add: flush_then_acts)
  show ?thesis
  proof (intro conjI impI)
    show "maxsize env c = (if MaxBatchSize env > 0 then MaxBatchSize env else max_c c)"
      by (simp add: maxsize_def)
    show "max_c (new_consumer config nc) = MaxAckPending config"
      by (simp add: new_consumer_def)
  next
    assume h: "fl \<or> int (length (pending c)) + 1 \<ge> maxsize env c"
    then have "fl \<or> int (length (pending ?c1)) \<ge> maxsize env ?c1"
      using cap by (auto simp: add.commute)
    then show eq: "on_msg m env c =
        flush_then [Process (evt\<lparr>NatsMsg := Some m\<rparr>)] (flush_answers env) ?c1"
      using step by (simp add: after_process_def)
    show "\<exists>rest. fst (on_msg m env c) = Process (evt\<lparr>NatsMsg := Some m\<rparr>) # Flush # rest"
      using eq fl_acts by simp
  qed
qed

theorem process_then_flush_witness:
  "on_msg 1 (delivery user_event True all_acked) fresh_consumer =
     ([Process (user_event\<lparr>NatsMsg := Some 1\<rparr>), Flush, Ack 1 None], Continue fresh_consumer)"
  using process_then_flush [of "delivery user_event True all_acked" "\<lparr>NumPending = 0\<rparr>"
      user_event fresh_consumer 1 user_event "Handle 0" True]
  by (simp add: fresh_consumer_def running_consumer_def delivery_def user_event_def
      all_acked_def shouldSkip_def before_watermark_def tableTimestamp_def maxsize_def
      flush_then_def flush_def)

section \<open>Properties of the dispatcher loop\<close>

text \<open>
  C3. The claim: no message is both acked and naked by the consumer. In the run below
  two messages arrive on an empty batch, the driver accepts both, the batch reaches the
  driver's cap of 2 and is flushed; \<^verbatim>\<open>driver.Flush\<close> succeeds, message 1 is acked, the
  ack of message 2 fails, and the consumer then naks both: message 1 is acked and
  naked.
\<close>

theorem ack_failure_run_acks_and_naks:
  "bufferer [Recv 1 (delivery user_event False all_acked),
             Recv 2 (delivery user_event False second_ack_fails)] fresh_consumer =
     ([Process (user_event\<lparr>NatsMsg := Some 1\<rparr>), Process (user_event\<lparr>NatsMsg := Some 2\<rparr>),
       Flush, Ack 1 None, Ack 2 (Some (ErrOther ''ack failed'')), Nak 1, Nak 2],
      Return fresh_consumer)"
  by (simp add: fresh_consumer_def running_consumer_def delivery_def user_event_def
      all_acked_def second_ack_fails_def on_msg_def shouldSkip_def before_watermark_def
      tableTimestamp_def after_process_def maxsize_def start_pending_def catchup_check_def
      latency_check_def time_Since_def maxPendingLatency_def flush_then_def flush_def
      nackEverything_def)

lemma flush_then_safe:
  "started_if_pending c \<or> driver c \<noteq> None \<Longrightarrow> safe_outcome (snd (flush_then pre fenv c))"
  by (auto simp: flush_then_def flush_def nackEverything_def handleError_def safe_outcome_def
      started_if_pending_def split: option.splits prod.splits)

lemma latency_check_safe:
  "pendingStarted c \<noteq> None \<Longrightarrow> safe_outcome (snd (latency_check pre env c))"
  using flush_then_safe [of c pre "flush_answers env"]
  by (auto simp: latency_check_def safe_outcome_def started_if_pending_def)

lemma catchup_check_safe:
  "pendingStarted c \<noteq> None \<Longrightarrow> safe_outcome (snd (catchup_check pre md env c))"
  using latency_check_safe [of c pre env]
  by (auto simp: catchup_check_def safe_outcome_def started_if_pending_def)

lemma start_pending_started: "pendingStarted (start_pending now c) \<noteq> None"
  by (simp add: start_pending_def split: option.splits)

lemma after_process_safe:
  "driver c \<noteq> None \<Longrightarrow> safe_outcome (snd (after_process pre fl md env c))"
  using flush_then_safe [of c pre "flush_answers env"]
    catchup_check_safe [OF start_pending_started, of pre md env "now_started env" c]
  by (simp add: after_process_def)

lemma skip_keeps_started:
  "started_if_pending c \<Longrightarrow> started_if_pending (c\<lparr>pending := remove1 m (pending c @ [m])\<rparr>)"
  by (cases "pending c") (auto simp: started_if_pending_def)

lemma on_msg_safe:
  assumes "started_if_pending c"
  shows "safe_outcome (snd (on_msg m env c))"
proof -
  let ?c1 = "c\<lparr>pending := pending c @ [m]\<rparr>"
  show ?thesis
  proof (cases "metadata_result env")
    case (Inl err)
    then show ?thesis
      by (simp add: on_msg_def handleError_def nackEverything_def safe_outcome_def)
  next
    case md: (Inr md)
    show ?thesis
    proof (cases "unmarshal_result env")
      case (Inl err)
      with md show ?thesis
        by (simp add: on_msg_def handleError_def nackEverything_def safe_outcome_def)
    next
      case ev: (Inr evt0)
      obtain b evt where sk: "shouldSkip ?c1 (validate_answer env) evt0 = (b, evt)"
        by (cases "shouldSkip ?c1 (validate_answer env) evt0")
      show ?thesis
      proof (cases b)
        case True
        with md ev sk skip_keeps_started [OF assms, of m] show ?thesis
          by (simp add: on_msg_def safe_outcome_def)
      next
        case False
        show ?thesis
        proof (cases "driver c")
          case None
          with md ev sk False show ?thesis
            by (simp add: on_msg_def safe_outcome_def)
        next
          case (Some d)
          obtain fl r where pr: "process_result env = (fl, r)"
            by (cases "process_result env")
          show ?thesis
          proof (cases r)
            case None
            have "driver ?c1 \<noteq> None" using Some by simp
            from after_process_safe [OF this]
            show ?thesis using md ev sk False Some pr None
              by (simp add: on_msg_def)
          next
            case (Some err)
            with md ev sk False \<open>driver c = Some d\<close> pr show ?thesis
              by (simp add: on_msg_def handleError_def nackEverything_def safe_outcome_def)
          qed
        qed
      qed
    qed
  qed
qed

lemma idle_rest_safe:
  "started_if_pending c \<Longrightarrow> safe_outcome (snd (idle_rest env c))"
  by (simp add: idle_rest_def nackEverything_def safe_outcome_def)

lemma on_default_safe:
  assumes "started_if_pending c"
  shows "safe_outcome (snd (on_default env c))"
proof (cases "length (pending c) > 0 \<and> int (length (pending c)) < max_c c")
  case True
  then have "pending c \<noteq> []" by auto
  with assms obtain ps where ps: "pendingStarted c = Some ps"
    by (auto simp: started_if_pending_def)
  show ?thesis
    using True ps assms flush_then_safe [of c "[]" "idle_flush env"] idle_rest_safe [of c env]
    by (simp add: on_default_def)
next
  case False
  then show ?thesis
    using assms idle_rest_safe [of c env] by (auto simp: on_default_def)
qed

lemma iteration_safe:
  "started_if_pending c \<Longrightarrow> safe_outcome (snd (iteration s c))"
proof (cases s)
  case CtxDone
  then show ?thesis by (simp add: nackEverything_def safe_outcome_def)
next
  case (Recv m env)
  assume "started_if_pending c"
  with Recv show ?thesis by (simp add: on_msg_safe)
next
  case (Default env)
  assume "started_if_pending c"
  with Default show ?thesis by (simp add: on_default_safe)
qed

lemma bufferer_safe:
  "started_if_pending c \<Longrightarrow> safe_outcome (snd (bufferer ss c))"
proof (induction ss arbitrary: c)
  case Nil
  then show ?case by (simp add: safe_outcome_def)
next
  case (Cons s ss)
  obtain a r where it: "iteration s c = (a, r)" by (cases "iteration s c")
  have safe: "safe_outcome r"
    using iteration_safe [OF Cons.prems, of s] it by simp
  show ?case
  proof (cases r)
    case (Continue c')
    with safe have "started_if_pending c'" by (simp add: safe_outcome_def)
    from Cons.IH [OF this] show ?thesis
      using it Continue by (cases "bufferer ss c'") simp
  next
    case (Return c')
    with it show ?thesis by (simp add: safe_outcome_def)
  next
    case (Panic p)
    with it safe show ?thesis by (simp add: safe_outcome_def)
  qed
qed

text \<open>
  Run alone, the loop keeps the invariant that a non-empty pending batch has
  \<^verbatim>\<open>pendingStarted\<close> set: the consumer that \<^verbatim>\<open>CreateConsumer\<close> builds satisfies it, and
  from any consumer that does, no run of the loop by itself crashes on a dereference of
  \<^verbatim>\<open>pendingStarted\<close>.
\<close>

lemma bufferer_alone_safe:
  assumes "started_if_pending c"
  shows "snd (bufferer ss c) \<noteq> Panic NilPendingStarted
         \<and> (\<forall>c'. snd (bufferer ss c) = Continue c' \<longrightarrow> started_if_pending c')
         \<and> started_if_pending (new_consumer config nc)"
  using bufferer_safe [OF assms, of ss]
  by (auto simp: safe_outcome_def new_consumer_def started_if_pending_def)

text \<open>With nothing running beside it, the split \<^verbatim>\<open>default\<close> branch is the branch itself.\<close>

lemma default_with_count_alone:
  "default_with_count (length (pending c)) env c = on_default env c"
  by (auto simp: default_with_count_def on_default_def idle_rest_def split: option.splits)

text \<open>
  C9. The claim: wherever the loop dereferences \<^verbatim>\<open>pendingStarted\<close> it is non-nil, so
  the nil dereference is unreachable. The loop is not the only writer: \<^verbatim>\<open>Stop\<close> calls
  flush from another goroutine, and the loop reads \<^verbatim>\<open>pending\<close> and \<^verbatim>\<open>pendingStarted\<close>
  without the lock. In the run below one message arrives on an empty batch and is
  kept pending; the loop then enters the \<^verbatim>\<open>default\<close> branch and reads a count of 1;
  the flush of \<^verbatim>\<open>Stop\<close> acks the message and sets \<^verbatim>\<open>pendingStarted\<close> to nil; the loop
  passes its two tests on the count and dereferences nil.
\<close>

theorem Stop_flush_races_dereference:
  "bufferer [Recv 1 (delivery user_event False all_acked)] fresh_consumer =
     ([Process (user_event\<lparr>NatsMsg := Some 1\<rparr>)],
      Continue (fresh_consumer\<lparr>pending := [1], pendingStarted := Some 10\<rparr>))
   \<and> on_default_during_Stop idle_tick all_acked
        (fresh_consumer\<lparr>pending := [1], pendingStarted := Some 10\<rparr>) =
     ([Flush, Ack 1 None], Panic NilPendingStarted)"
  by (simp add: fresh_consumer_def running_consumer_def delivery_def user_event_def
      all_acked_def on_msg_def shouldSkip_def before_watermark_def
      tableTimestamp_def after_process_def maxsize_def start_pending_def catchup_check_def
      latency_check_def time_Since_def maxPendingLatency_def flush_then_def flush_def
      nackEverything_def on_default_during_Stop_def Stop_flush_def default_with_count_def
      idle_tick_def)

section \<open>Properties of Pause and Unpause\<close>

text \<open>
  C8. On a consumer that has a subscription, \<^verbatim>\<open>Pause\<close> drains it, does not flush, and
  changes only \<^verbatim>\<open>subscriber\<close> and \<^verbatim>\<open>pauseStarted\<close>; \<^verbatim>\<open>Unpause\<close> right after it
  subscribes again and, when that succeeds, sets \<^verbatim>\<open>subscriber\<close> and clears
  \<^verbatim>\<open>pauseStarted\<close>, changing nothing else. Whatever the subscription answers, the
  pending batch and \<^verbatim>\<open>pendingStarted\<close> are as before \<^verbatim>\<open>Pause\<close>, and a flush afterwards
  makes the calls it would have made before.
\<close>

theorem pause_unpause_frame:
  assumes "subscriber c = Some s"
  shows "Pause now c = Inr ([Drain s], c\<lparr>subscriber := None, pauseStarted := Some now\<rparr>)
         \<and> Unpause (Inr sub) (c\<lparr>subscriber := None, pauseStarted := Some now\<rparr>)
             = ([Consume], None, c\<lparr>subscriber := Some sub, pauseStarted := None\<rparr>)
         \<and> Unpause (Inl e) (c\<lparr>subscriber := None, pauseStarted := Some now\<rparr>)
             = ([Consume, ConnClose], Some (ErrWrap ''error starting jetstream consumer'' e),
                c\<lparr>subscriber := None, pauseStarted := Some now\<rparr>)
         \<and> pending (snd (snd (Unpause r (c\<lparr>subscriber := None, pauseStarted := Some now\<rparr>))))
             = pending c
         \<and> pendingStarted (snd (snd (Unpause r (c\<lparr>subscriber := None, pauseStarted := Some now\<rparr>))))
             = pendingStarted c
         \<and> fst (flush fenv (snd (snd (Unpause r (c\<lparr>subscriber := None, pauseStarted := Some now\<rparr>)))))
             = fst (flush fenv c)"
  using assms
  by (cases r) (auto simp: Pause_def Unpause_def flush_def nackEverything_def handleError_def
      split: option.splits prod.splits)

theorem pause_unpause_frame_witness:
  "Pause 20 running_consumer
     = Inr ([Drain (Handle 3)], running_consumer\<lparr>subscriber := None, pauseStarted := Some 20\<rparr>)
   \<and> Unpause (Inr (Handle 4)) (running_consumer\<lparr>subscriber := None, pauseStarted := Some 20\<rparr>)
     = ([Consume], None, running_consumer\<lparr>subscriber := Some (Handle 4)\<rparr>)"
  using pause_unpause_frame [of running_consumer "Handle 3" 20 "Handle 4" _ "Inr (Handle 4)" all_acked]
  by (simp add: running_consumer_def)

section \<open>Properties of CreateConsumer\<close>

lemma watermarks_Nil [simp]: "watermarks [] = {}"
  by (simp add: watermarks_def)

lemma watermarks_Cons_None [simp]: "watermarks ((k, None) # tt) = watermarks tt"
  by (auto simp: watermarks_def)

lemma watermarks_Cons_Some [simp]: "watermarks ((k, Some t) # tt) = insert t (watermarks tt)"
  by (auto simp: watermarks_def)

lemma finite_watermarks [simp]: "finite (watermarks tt)"
proof (induction tt)
  case Nil
  show ?case by simp
next
  case (Cons x tt)
  obtain k ts where x: "x = (k, ts)" by (cases x)
  show ?case using Cons x by (cases ts) simp_all
qed

lemma earliest_Some:
  "earliest tt (Some s) = Some (Min (insert s (watermarks tt)))"
proof (induction tt arbitrary: s)
  case Nil
  show ?case by simp
next
  case (Cons x tt)
  obtain k ts where x: "x = (k, ts)" by (cases x)
  show ?case
  proof (cases ts)
    case None
    with x Cons show ?thesis by simp
  next
    case (Some t)
    have "Min (insert (min t s) (watermarks tt)) = Min (insert s (insert t (watermarks tt)))"
      by (cases "watermarks tt = {}") (simp_all add: min.commute min.left_commute)
    moreover have "(if t < s then Some t else Some s) = Some (min t s)"
      by (simp add: min_def)
    ultimately show ?thesis using x Some Cons by simp
  qed
qed

lemma earliest_None:
  "earliest tt None = (if watermarks tt = {} then None else Some (Min (watermarks tt)))"
proof (induction tt)
  case Nil
  show ?case by simp
next
  case (Cons x tt)
  obtain k ts where x: "x = (k, ts)" by (cases x)
  show ?case
  proof (cases ts)
    case None
    with x Cons show ?thesis by simp
  next
    case (Some t)
    with x show ?thesis by (simp add: earliest_Some)
  qed
qed

lemma startAt_of_Min:
  "startAt_of config =
     (if config_watermarks config = {} then None else Some (Min (config_watermarks config)))"
  by (simp add: startAt_of_def config_watermarks_def earliest_None split: option.splits)

lemma jsConfig_DeliverAll [simp]: "jsConfig (config\<lparr>DeliverAll := b\<rparr>) info = jsConfig config info"
  by (simp add: jsConfig_def)



end
